theory Spec2Isabelle
  imports Complex_Main "HOL-Library.Multiset"
begin

section \<open>Instants, local times and counts\<close>

text \<open>
  File modification times (\<open>st_mtime\<close>) and the values of \<open>datetime.timestamp()\<close> are
  Python floats. Every finite float is a rational number and the float comparison
  \<open><\<close> of finite floats is the order of those rationals, so an instant is modelled as
  a \<^typ>\<open>rat\<close>. Only comparisons of instants are used by the code below.

  \<open>datetime.now()\<close> yields a naive local time: a wall-clock reading without a zone.
  The code stores such readings as ISO strings (an exact round trip), subtracts two of
  them to get a duration, and turns one into an instant with \<open>timestamp()\<close>, which
  depends on the zone rules of the machine. A naive local time is its own type, and
  \<open>timestamp\<close> is an input of each invocation.
\<close>

type_synonym instant = rat

datatype datetime = Naive rat

datatype error = TypeError | KeyError | ZeroDivisionError

record file_counts =
  total_files :: int
  historical_files :: int
  new_files :: int

section \<open>The cutoff counter\<close>

text \<open>
  \<open>bisect.bisect_left(a, x)\<close> of the Python standard library, with \<open>lo = 0\<close> and
  \<open>hi = len(a)\<close>:
  \<^verbatim>\<open>
  while lo < hi:
      mid = (lo + hi) // 2
      if a[mid] < x: lo = mid + 1
      else: hi = mid
  return lo
  \<close>
  Inside the loop \<open>mid < hi \<le> len(a)\<close>, so \<open>a[mid]\<close> never raises.
\<close>

function bisect_left_loop :: "'a::linorder list \<Rightarrow> 'a \<Rightarrow> nat \<Rightarrow> nat \<Rightarrow> nat" where
  "bisect_left_loop a x lo hi =
     (if lo < hi then
        (let mid = (lo + hi) div 2 in
         if a ! mid < x then bisect_left_loop a x (mid + 1) hi
         else bisect_left_loop a x lo mid)
      else lo)"
  by pat_completeness auto
termination
  by (relation "measure (\<lambda>(a, x, lo, hi). hi - lo)") auto

declare bisect_left_loop.simps [simp del]

definition bisect_left :: "'a::linorder list \<Rightarrow> 'a \<Rightarrow> nat" where
  "bisect_left a x = bisect_left_loop a x 0 (length a)"

definition no_files :: file_counts where
  "no_files = \<lparr>total_files = 0, historical_files = 0, new_files = 0\<rparr>"

definition binary_search_file_count :: "(instant \<times> string) list \<Rightarrow> instant \<Rightarrow> file_counts" where
  "binary_search_file_count timestamps cutoff_timestamp =
     (if timestamps = [] then no_files
      else
        (let total = int (length timestamps);
             cutoff_index = bisect_left (map fst timestamps) cutoff_timestamp;
             historical = int cutoff_index;
             new = total - historical
         in \<lparr>total_files = total, historical_files = historical, new_files = new\<rparr>))"

section \<open>Configuration, device state and approval records\<close>

text \<open>
  The configuration document. Only the keys read by the counting and approval code are
  kept; a key the code indexes without a default is an option, \<open>None\<close> when the key is
  absent. \<open>production_start_date\<close> is \<open>None\<close> when the key is missing or is not a
  valid ISO date (the code falls through to the next source in both cases).
  \<open>bootstrap_mode_setting\<close> is the key \<open>production_settings.bootstrap_mode\<close>.
  \<open>email_enabled\<close> is \<open>email_settings.enabled\<close> (false when absent) and
  \<open>approval_url\<close> the key \<open>approval_settings.approval_url\<close>. The device dictionary
  is kept as an association list in the order of \<open>items()\<close>.
\<close>

record device_config =
  enabled :: bool
  configured_tier :: "string option"
  production_start_date :: "datetime option"

record requirements =
  req_24h_to_12h :: "int option"
  req_12h_to_6h :: "int option"
  req_6h_to_3h :: "int option"
  req_3h_to_2h :: "int option"

record config =
  scan_path :: "string option"
  devices :: "(string \<times> device_config) list"
  global_production_start_date :: "datetime option"
  bootstrap_mode_setting :: "bool option"
  bootstrap_used_on_deployment :: "bool option"
  excluded_tiers :: "string list"
  tier_requirements :: "requirements option"
  email_enabled :: bool
  approval_url :: "string option"

record device_state =
  current_tier :: string
  count :: int
  tier_start_date :: datetime
  approval_status :: string
  ds_total_files :: int
  ds_historical_files :: int
  device_production_start_date :: datetime
  pending_approval_id :: "string option"

record approval_request =
  approval_id :: string
  device_name :: string
  ar_current_tier :: string
  proposed_tier :: string
  unit_count :: int
  request_date :: datetime
  status :: string
  decision_date :: "datetime option"
  approver :: "string option"

record approvals =
  pending :: "string \<rightharpoonup> approval_request"
  history :: "approval_request list"

record scan_state =
  last_scan :: "datetime option"
  bootstrap_completed :: bool
  st_devices :: "string \<rightharpoonup> device_state"

text \<open>
  The two documents on disk, \<open>state.json\<close> and \<open>pending_approvals.json\<close>. A missing
  file reads as the initial document.
\<close>

record disk =
  state_doc :: scan_state
  approvals_doc :: approvals

text \<open>
  A \<open>BinarySearchFileCounter\<close> object: the fields the core reads and writes, together
  with the content of the two files as the object last wrote or read them.
\<close>

record counter =
  config :: config
  bootstrap_mode :: bool
  state :: scan_state
  pending_approvals :: approvals
  state_file :: scan_state
  approvals_file :: approvals

text \<open>
  What one invocation reads from outside the object.

  \<open>inbox e name\<close> are the files of the device's \<open>BIU\<close> folder that \<open>os.scandir\<close>
  can stat and that pass \<open>fast_file_filter\<close>, as \<open>(st_mtime, name)\<close> pairs in
  enumeration order. \<open>access e name\<close> says what happens when the invocation looks at
  the folder: \<open>Folder_missing\<close> when \<open>biu_path.exists()\<close> is false (also the answer
  for an unreachable network path), \<open>Scan_failed\<close> when \<open>os.scandir\<close> raises, so that
  the collection returns the empty list, and \<open>Scan_ok\<close> when the files are listed.

  \<open>clock e s\<close> is the value of \<open>datetime.now()\<close> at the read site \<open>s\<close>,
  \<open>timestamp e\<close> the conversion \<open>datetime.timestamp()\<close> of the machine, and
  \<open>uuid4 e name\<close> the eight characters \<open>str(uuid.uuid4())[:8]\<close> drawn when a request
  is created for device \<open>name\<close>.
\<close>

datatype access = Folder_missing | Scan_failed | Scan_ok

datatype site =
    Start_time
  | Scan_start
  | Scan_end
  | Run_end
  | Cutoff_fallback string
  | Update_fallback string
  | Init_fallback string
  | Tier_start string
  | Request_date string

record env =
  inbox :: "string \<Rightarrow> (instant \<times> string) list"
  access :: "string \<Rightarrow> access"
  clock :: "site \<Rightarrow> datetime"
  timestamp :: "datetime \<Rightarrow> instant"
  uuid4 :: "string \<Rightarrow> string"

definition create_initial_state :: scan_state where
  "create_initial_state =
     \<lparr>last_scan = None, bootstrap_completed = False, st_devices = Map.empty\<rparr>"

definition no_approvals :: approvals where
  "no_approvals = \<lparr>pending = Map.empty, history = []\<rparr>"

definition initial_disk :: disk where
  "initial_disk = \<lparr>state_doc = create_initial_state, approvals_doc = no_approvals\<rparr>"

text \<open>\<open>__init__\<close>: the configuration as read, the two documents as loaded from disk.\<close>

definition init :: "config \<Rightarrow> disk \<Rightarrow> counter" where
  "init cfg d =
     \<lparr>config = cfg,
      bootstrap_mode = (case bootstrap_mode_setting cfg of None \<Rightarrow> False | Some b \<Rightarrow> b),
      state = state_doc d,
      pending_approvals = approvals_doc d,
      state_file = state_doc d,
      approvals_file = approvals_doc d\<rparr>"

definition disk_of :: "counter \<Rightarrow> disk" where
  "disk_of c = \<lparr>state_doc = state_file c, approvals_doc = approvals_file c\<rparr>"

definition save_state :: "counter \<Rightarrow> counter" where
  "save_state c = c\<lparr>state_file := state c\<rparr>"

definition save_pending_approvals :: "counter \<Rightarrow> counter" where
  "save_pending_approvals c = c\<lparr>approvals_file := pending_approvals c\<rparr>"

text \<open>
  A method either returns a value or raises; both leave the object, and with it the
  files, as they are at that moment.
\<close>

type_synonym 'a outcome = "(error \<times> counter) + ('a \<times> counter)"

definition final :: "'a outcome \<Rightarrow> counter" where
  "final r = (case r of Inl (err, c) \<Rightarrow> c | Inr (x, c) \<Rightarrow> c)"

section \<open>Scanning one device\<close>

definition get_device_production_start_date :: "config \<Rightarrow> datetime \<Rightarrow> string \<Rightarrow> datetime" where
  "get_device_production_start_date cfg tnow name =
     (case (case map_of (devices cfg) name of
              None \<Rightarrow> None
            | Some dc \<Rightarrow> production_start_date dc) of
        Some d \<Rightarrow> d
      | None \<Rightarrow>
          (case global_production_start_date cfg of
             Some g \<Rightarrow> g
           | None \<Rightarrow> tnow))"

definition bulk_collect_file_timestamps :: "env \<Rightarrow> string \<Rightarrow> (instant \<times> string) list" where
  "bulk_collect_file_timestamps e name =
     (case access e name of
        Folder_missing \<Rightarrow> []
      | Scan_failed \<Rightarrow> []
      | Scan_ok \<Rightarrow> sort_key fst (inbox e name))"

definition all_historical :: "(instant \<times> string) list \<Rightarrow> file_counts" where
  "all_historical timestamps =
     \<lparr>total_files = int (length timestamps),
      historical_files = int (length timestamps),
      new_files = 0\<rparr>"

definition scan_device_optimized ::
  "counter \<Rightarrow> env \<Rightarrow> string \<Rightarrow> device_config \<Rightarrow> error + file_counts" where
  "scan_device_optimized c e name dc =
     (if \<not> enabled dc then Inr no_files
      else if scan_path (config c) = None then Inl KeyError
      else if access e name = Folder_missing then Inr no_files
      else
        (let timestamps = bulk_collect_file_timestamps e name in
         if timestamps = [] then Inr no_files
         else if (case st_devices (state c) name of
                    None \<Rightarrow> False
                  | Some ds \<Rightarrow> approval_status ds = ''PENDING_APPROVAL'')
         then Inr (all_historical timestamps)
         else if \<not> bootstrap_completed (state c) then
           (let device_production_start =
                  get_device_production_start_date (config c)
                    (clock e (Cutoff_fallback name)) name;
                cutoff_timestamp = timestamp e device_production_start
            in if bootstrap_mode c then Inr (all_historical timestamps)
               else Inr (binary_search_file_count timestamps cutoff_timestamp))
         else
           (case last_scan (state c) of
              None \<Rightarrow> Inl TypeError
            | Some last_scan_date \<Rightarrow>
                Inr (binary_search_file_count timestamps (timestamp e last_scan_date)))))"

section \<open>Device state update and tier advancement\<close>

definition put_device :: "string \<Rightarrow> device_state \<Rightarrow> counter \<Rightarrow> counter" where
  "put_device name ds c =
     c\<lparr>state := (state c)\<lparr>st_devices := (st_devices (state c))(name \<mapsto> ds)\<rparr>\<rparr>"

definition initialize_device_state :: "counter \<Rightarrow> env \<Rightarrow> string \<Rightarrow> error + device_state" where
  "initialize_device_state c e name =
     (case map_of (devices (config c)) name of
        None \<Rightarrow> Inl KeyError
      | Some dc \<Rightarrow>
          Inr \<lparr>current_tier = (case configured_tier dc of None \<Rightarrow> ''24h'' | Some t \<Rightarrow> t),
               count = 0,
               tier_start_date = clock e (Tier_start name),
               approval_status = ''NONE'',
               ds_total_files = 0,
               ds_historical_files = 0,
               device_production_start_date =
                 get_device_production_start_date (config c)
                   (clock e (Init_fallback name)) name,
               pending_approval_id = None\<rparr>)"

text \<open>
  \<open>create_approval_request\<close> stores the request and writes the approvals file at once;
  the state file is written only at the end of \<open>run_scan\<close>.
\<close>

definition create_approval_request ::
  "counter \<Rightarrow> env \<Rightarrow> string \<Rightarrow> string \<Rightarrow> string \<Rightarrow> int \<Rightarrow> string \<times> counter" where
  "create_approval_request c e name cur_tier new_tier cnt =
     (let aid = uuid4 e name;
          approval_request =
            \<lparr>approval_id = aid,
             device_name = name,
             ar_current_tier = cur_tier,
             proposed_tier = new_tier,
             unit_count = cnt,
             request_date = clock e (Request_date name),
             status = ''PENDING'',
             decision_date = None,
             approver = None\<rparr>
      in (aid,
          save_pending_approvals
            (c\<lparr>pending_approvals :=
                 (pending_approvals c)
                   \<lparr>pending := (pending (pending_approvals c))(aid \<mapsto> approval_request)\<rparr>\<rparr>)))"

text \<open>
  The chain of \<open>if\<close>/\<open>elif\<close>: each branch compares the tier first and indexes
  \<open>requirements\<close> only when the tier matches, so a missing threshold raises only for
  a device in that tier.
\<close>

definition eligible_tier :: "requirements \<Rightarrow> string \<Rightarrow> int \<Rightarrow> error + string option" where
  "eligible_tier req cur_tier cur_count =
     (if cur_tier = ''24h'' then
        (case req_24h_to_12h req of
           None \<Rightarrow> Inl KeyError
         | Some r \<Rightarrow> Inr (if cur_count \<ge> r then Some ''12h'' else None))
      else if cur_tier = ''12h'' then
        (case req_12h_to_6h req of
           None \<Rightarrow> Inl KeyError
         | Some r \<Rightarrow> Inr (if cur_count \<ge> r then Some ''6h'' else None))
      else if cur_tier = ''6h'' then
        (case req_6h_to_3h req of
           None \<Rightarrow> Inl KeyError
         | Some r \<Rightarrow> Inr (if cur_count \<ge> r then Some ''3h'' else None))
      else if cur_tier = ''3h'' then
        (case req_3h_to_2h req of
           None \<Rightarrow> Inl KeyError
         | Some r \<Rightarrow> Inr (if cur_count \<ge> r then Some ''2h'' else None))
      else Inr None)"

text \<open>
  \<open>send_approval_request_email\<close> builds the message, which reads
  \<open>approval_settings.approval_url\<close>, before its \<open>try\<close>; what happens inside the
  \<open>try\<close> (the SMTP session) is caught and only logged. The result is the exception
  that leaves the method, if any.
\<close>

definition send_approval_request_email :: "counter \<Rightarrow> string \<Rightarrow> error option" where
  "send_approval_request_email c aid =
     (if \<not> email_enabled (config c) then None
      else
        (case pending (pending_approvals c) aid of
           None \<Rightarrow> Some KeyError
         | Some approval_request \<Rightarrow>
             (case approval_url (config c) of
                None \<Rightarrow> Some KeyError
              | Some url \<Rightarrow> None)))"

text \<open>
  The Python mutates the device's dictionary in place; the model writes the record back
  into the state with \<open>put_device\<close> on every path, before anything that can raise
  after the mutation.
\<close>

definition check_and_handle_tier_advancement ::
  "counter \<Rightarrow> env \<Rightarrow> string \<Rightarrow> device_state \<Rightarrow> unit outcome" where
  "check_and_handle_tier_advancement c e name ds =
     (if current_tier ds \<in> set (excluded_tiers (config c)) then Inr ((), put_device name ds c)
      else
        (case tier_requirements (config c) of
           None \<Rightarrow> Inl (KeyError, put_device name ds c)
         | Some requirements \<Rightarrow>
             (case eligible_tier requirements (current_tier ds) (count ds) of
                Inl err \<Rightarrow> Inl (err, put_device name ds c)
              | Inr None \<Rightarrow> Inr ((), put_device name ds c)
              | Inr (Some t) \<Rightarrow>
                  if t \<noteq> [] \<and> t \<noteq> current_tier ds then
                    (let (aid, c1) =
                           create_approval_request c e name (current_tier ds) t (count ds);
                         c2 = put_device name
                                (ds\<lparr>approval_status := ''PENDING_APPROVAL'',
                                    pending_approval_id := Some aid\<rparr>) c1
                     in if email_enabled (config c2) then
                          (case send_approval_request_email c2 aid of
                             Some err \<Rightarrow> Inl (err, c2)
                           | None \<Rightarrow> Inr ((), c2))
                        else Inr ((), c2))
                  else Inr ((), put_device name ds c))))"

definition update_device_state ::
  "counter \<Rightarrow> env \<Rightarrow> string \<Rightarrow> file_counts \<Rightarrow> unit outcome" where
  "update_device_state c e name fc =
     (case (case st_devices (state c) name of
              None \<Rightarrow> initialize_device_state c e name
            | Some ds \<Rightarrow> Inr ds) of
        Inl err \<Rightarrow> Inl (err, c)
      | Inr ds0 \<Rightarrow>
          (let ds1 = ds0\<lparr>ds_total_files := total_files fc,
                         ds_historical_files := historical_files fc,
                         device_production_start_date :=
                           get_device_production_start_date (config c)
                             (clock e (Update_fallback name)) name\<rparr>
           in if approval_status ds1 = ''PENDING_APPROVAL''
              then Inr ((), put_device name ds1 c)
              else
                check_and_handle_tier_advancement c e name
                  (ds1\<lparr>count := count ds1 + new_files fc\<rparr>)))"

section \<open>A scan cycle\<close>

fun scan_devices_loop ::
  "counter \<Rightarrow> env \<Rightarrow> string list \<Rightarrow> (string \<times> file_counts) list \<Rightarrow>
   ((string \<times> file_counts) list) outcome" where
  "scan_devices_loop c e [] device_results = Inr (device_results, c)"
| "scan_devices_loop c e (name # names) device_results =
     (case map_of (devices (config c)) name of
        None \<Rightarrow> Inl (KeyError, c)
      | Some dc \<Rightarrow>
          (case scan_device_optimized c e name dc of
             Inl err \<Rightarrow> Inl (err, c)
           | Inr fc \<Rightarrow>
               (case update_device_state c e name fc of
                  Inl raised \<Rightarrow> Inl raised
                | Inr (u, c') \<Rightarrow>
                    scan_devices_loop c' e names (device_results @ [(name, fc)]))))"

definition enabled_devices :: "config \<Rightarrow> string list" where
  "enabled_devices cfg = map fst (filter (\<lambda>(name, dc). enabled dc) (devices cfg))"

text \<open>
  After the loop the log line divides the number of files by \<open>total_duration\<close>, the
  difference of two clock readings, with no guard: equal readings raise
  \<open>ZeroDivisionError\<close>.
\<close>

definition scan_all_devices ::
  "counter \<Rightarrow> env \<Rightarrow> ((string \<times> file_counts) list) outcome" where
  "scan_all_devices c e =
     (case scan_devices_loop c e (enabled_devices (config c)) [] of
        Inl raised \<Rightarrow> Inl raised
      | Inr (device_results, c') \<Rightarrow>
          if clock e Scan_end = clock e Scan_start then Inl (ZeroDivisionError, c')
          else Inr (device_results, c'))"

definition clear_bootstrap_mode :: "config \<Rightarrow> config" where
  "clear_bootstrap_mode cfg =
     (case bootstrap_mode_setting cfg of
        None \<Rightarrow> cfg
      | Some bootstrap_used \<Rightarrow>
          cfg\<lparr>bootstrap_mode_setting := None,
              bootstrap_used_on_deployment := Some bootstrap_used\<rparr>)"

text \<open>
  \<open>run_scan\<close> returns the report, or \<open>None\<close> when no device was scanned; the model
  returns whether a report was produced. \<open>start_time\<close> is read before the devices are
  scanned and is what \<open>last_scan\<close> records. The state file is written once, after the
  devices are scanned; the log line that follows divides by \<open>scan_duration\<close> with no
  guard.
\<close>

definition run_scan :: "counter \<Rightarrow> env \<Rightarrow> bool outcome" where
  "run_scan c e =
     (let start_time = clock e Start_time in
      case scan_all_devices c e of
        Inl raised \<Rightarrow> Inl raised
      | Inr (device_results, c1) \<Rightarrow>
          if device_results = [] then Inr (False, c1)
          else
            (let c2 = (if \<not> bootstrap_completed (state c1)
                       then c1\<lparr>state := (state c1)\<lparr>bootstrap_completed := True\<rparr>,
                               config := clear_bootstrap_mode (config c1)\<rparr>
                       else c1);
                 c3 = c2\<lparr>state := (state c2)\<lparr>last_scan := Some start_time\<rparr>\<rparr>;
                 c4 = save_state c3
             in if clock e Run_end = start_time then Inl (ZeroDivisionError, c4)
                else Inr (True, c4)))"

section \<open>Resolving an approval request\<close>

text \<open>
  \<open>t_tier\<close> and \<open>t_decision\<close> are the two clock readings of the method. The
  \<open>KeyError\<close> of a request whose device has no record is raised before anything is
  changed.
\<close>

definition process_approval_decision ::
  "counter \<Rightarrow> datetime \<Rightarrow> datetime \<Rightarrow> string \<Rightarrow> string \<Rightarrow> string \<Rightarrow>
   error + (bool \<times> counter)" where
  "process_approval_decision c t_tier t_decision aid decision approver_name =
     (case pending (pending_approvals c) aid of
        None \<Rightarrow> Inr (False, c)
      | Some approval_request \<Rightarrow>
          (let name = device_name approval_request in
           case st_devices (state c) name of
             None \<Rightarrow> Inl KeyError
           | Some ds \<Rightarrow>
               (let ds1 =
                      (if decision = ''APPROVE'' then
                         ds\<lparr>current_tier := proposed_tier approval_request,
                            count := 0,
                            tier_start_date := t_tier,
                            approval_status := ''APPROVED''\<rparr>
                       else if decision = ''REJECT'' then
                         ds\<lparr>count := 0,
                            tier_start_date := t_tier,
                            approval_status := ''REJECTED''\<rparr>
                       else ds);
                    resolved = approval_request
                      \<lparr>status := decision,
                       decision_date := Some t_decision,
                       approver := Some approver_name\<rparr>;
                    ap = \<lparr>pending = (pending (pending_approvals c))(aid := None),
                          history = history (pending_approvals c) @ [resolved]\<rparr>;
                    ds2 = ds1\<lparr>pending_approval_id := None\<rparr>
                in Inr (True,
                     save_pending_approvals
                       (save_state ((put_device name ds2 c)\<lparr>pending_approvals := ap\<rparr>))))))"

section \<open>Invocations over time\<close>

text \<open>
  Every invocation is a process of its own: it reads the configuration, which an
  operator may have edited, and the two documents from disk, runs one method, and
  leaves the files as its object last wrote them, whether the method returned or
  raised. \<open>Scan\<close> is the scanner's \<open>main\<close>, \<open>Resolve\<close> one decision taken through the
  approval surface, where an exception of the method is caught and reported.
\<close>

datatype event =
    Scan config env
  | Resolve config datetime datetime string string string

fun is_scan :: "event \<Rightarrow> bool" where
  "is_scan (Scan cfg e) = True"
| "is_scan (Resolve cfg t_tier t_decision aid decision who) = False"

fun is_resolve :: "event \<Rightarrow> bool" where
  "is_resolve (Scan cfg e) = False"
| "is_resolve (Resolve cfg t_tier t_decision aid decision who) = True"

fun step :: "disk \<Rightarrow> event \<Rightarrow> disk" where
  "step d (Scan cfg e) = disk_of (final (run_scan (init cfg d) e))"
| "step d (Resolve cfg t_tier t_decision aid decision who) =
     (case process_approval_decision (init cfg d) t_tier t_decision aid decision who of
        Inl err \<Rightarrow> d
      | Inr (ok, c') \<Rightarrow> disk_of c')"

fun run_events :: "disk \<Rightarrow> event list \<Rightarrow> disk" where
  "run_events d [] = d"
| "run_events d (ev # evs) = run_events (step d ev) evs"

text \<open>The documents the system can leave on disk, starting with no files.\<close>

inductive reachable :: "disk \<Rightarrow> bool" where
  reachable_init: "reachable initial_disk"
| reachable_step: "reachable d \<Longrightarrow> reachable (step d ev)"

text \<open>
  A scan records its start time when it gets as far as writing the state file: the
  devices were scanned without an exception and at least one device is enabled.
\<close>

definition saves_state :: "counter \<Rightarrow> env \<Rightarrow> bool" where
  "saves_state c e =
     (case scan_all_devices c e of
        Inl raised \<Rightarrow> False
      | Inr (device_results, c1) \<Rightarrow> device_results \<noteq> [])"


section \<open>Vocabulary of the specification\<close>

text \<open>
  The counter splits the sorted sequence at the cutoff index: the first
  \<open>historical_files\<close> entries are the historical ones, the entries from there up to
  \<open>total_files\<close> are the new ones.
\<close>

definition new_entries :: "(instant \<times> string) list \<Rightarrow> file_counts \<Rightarrow> (instant \<times> string) list" where
  "new_entries timestamps fc =
     drop (nat (historical_files fc)) (take (nat (total_files fc)) timestamps)"

text \<open>The files of a device's inbox that an invocation gets to see.\<close>

definition observed :: "env \<Rightarrow> string \<Rightarrow> (instant \<times> string) list" where
  "observed e name =
     (case access e name of
        Folder_missing \<Rightarrow> []
      | Scan_failed \<Rightarrow> []
      | Scan_ok \<Rightarrow> inbox e name)"

text \<open>The count on disk for a device; a device without a record has accrued nothing.\<close>

definition count_of :: "disk \<Rightarrow> string \<Rightarrow> int" where
  "count_of d name =
     (case st_devices (state_doc d) name of None \<Rightarrow> 0 | Some ds \<Rightarrow> count ds)"

text \<open>The open requests of a device on disk.\<close>

definition open_requests :: "disk \<Rightarrow> string \<Rightarrow> string set" where
  "open_requests d name =
     {aid. \<exists>r. pending (approvals_doc d) aid = Some r \<and> device_name r = name}"

text \<open>No device has accrued anything and none awaits approval.\<close>

definition quiet :: "counter \<Rightarrow> bool" where
  "quiet c \<longleftrightarrow>
     (\<forall>name ds. st_devices (state c) name = Some ds \<longrightarrow>
        count ds = 0 \<and> approval_status ds = ''NONE'')"

text \<open>Every threshold the configuration gives is positive.\<close>

definition positive_thresholds :: "config \<Rightarrow> bool" where
  "positive_thresholds cfg \<longleftrightarrow>
     (\<forall>req r. tier_requirements cfg = Some req \<longrightarrow>
        (req_24h_to_12h req = Some r \<or> req_12h_to_6h req = Some r
         \<or> req_6h_to_3h req = Some r \<or> req_3h_to_2h req = Some r) \<longrightarrow> 0 < r)"

section \<open>A small installation used to run the model\<close>

definition demo_device :: device_config where
  "demo_device =
     \<lparr>enabled = True, configured_tier = Some ''24h'',
      production_start_date = Some (Naive 10)\<rparr>"

definition demo_requirements :: requirements where
  "demo_requirements =
     \<lparr>req_24h_to_12h = Some 3, req_12h_to_6h = Some 3,
      req_6h_to_3h = Some 3, req_3h_to_2h = Some 3\<rparr>"

definition demo_config :: config where
  "demo_config =
     \<lparr>scan_path = Some ''inbox'',
      devices = [(''dev1'', demo_device)],
      global_production_start_date = None,
      bootstrap_mode_setting = None,
      bootstrap_used_on_deployment = None,
      excluded_tiers = [''2h''],
      tier_requirements = Some demo_requirements,
      email_enabled = False,
      approval_url = Some ''http://localhost:8080''\<rparr>"

text \<open>A machine on UTC, where a local time is the instant of the same number.\<close>

fun utc :: "datetime \<Rightarrow> instant" where
  "utc (Naive x) = x"

text \<open>
  A clock that starts the run at \<open>t\<close>, ends the device loop at \<open>t + 1\<close> and the run
  at \<open>t + 2\<close>.
\<close>

fun demo_clock :: "rat \<Rightarrow> site \<Rightarrow> datetime" where
  "demo_clock t Start_time = Naive t"
| "demo_clock t Scan_start = Naive t"
| "demo_clock t Scan_end = Naive (t + 1)"
| "demo_clock t Run_end = Naive (t + 2)"
| "demo_clock t (Cutoff_fallback name) = Naive t"
| "demo_clock t (Update_fallback name) = Naive t"
| "demo_clock t (Init_fallback name) = Naive t"
| "demo_clock t (Tier_start name) = Naive t"
| "demo_clock t (Request_date name) = Naive t"

text \<open>A clock whose two readings around the device loop coincide.\<close>

definition coarse_clock :: "rat \<Rightarrow> site \<Rightarrow> datetime" where
  "coarse_clock t s = (if s = Scan_end then Naive t else demo_clock t s)"

definition demo_env :: "(instant \<times> string) list \<Rightarrow> rat \<Rightarrow> env" where
  "demo_env es t =
     \<lparr>inbox = (\<lambda>name. if name = ''dev1'' then es else []),
      access = (\<lambda>name. if name = ''dev1'' then Scan_ok else Folder_missing),
      clock = demo_clock t,
      timestamp = utc,
      uuid4 = (\<lambda>name. ''id-'' @ name)\<rparr>"

definition demo_files :: "(instant \<times> string) list" where
  "demo_files = [(12, ''c''), (10, ''a''), (11, ''b'')]"

text \<open>The documents after the first scan has seen \<open>demo_files\<close>, starting at 20.\<close>

definition demo_request :: approval_request where
  "demo_request =
     \<lparr>approval_id = ''id-dev1'', device_name = ''dev1'', ar_current_tier = ''24h'',
      proposed_tier = ''12h'', unit_count = 3, request_date = Naive 20,
      status = ''PENDING'', decision_date = None, approver = None\<rparr>"

definition demo_pending_device :: device_state where
  "demo_pending_device =
     \<lparr>current_tier = ''24h'', count = 3, tier_start_date = Naive 20,
      approval_status = ''PENDING_APPROVAL'', ds_total_files = 3, ds_historical_files = 0,
      device_production_start_date = Naive 10, pending_approval_id = Some ''id-dev1''\<rparr>"

definition demo_requested :: disk where
  "demo_requested =
     \<lparr>state_doc = \<lparr>last_scan = Some (Naive 20), bootstrap_completed = True,
                   st_devices = [''dev1'' \<mapsto> demo_pending_device]\<rparr>,
      approvals_doc = \<lparr>pending = [''id-dev1'' \<mapsto> demo_request], history = []\<rparr>\<rparr>"

text \<open>The count an object holds in memory for a device.\<close>

definition count_in :: "counter \<Rightarrow> string \<Rightarrow> int" where
  "count_in c name =
     (case st_devices (state c) name of None \<Rightarrow> 0 | Some ds \<Rightarrow> count ds)"

text \<open>The documents after a first scan starting at 15 that found the inbox empty.\<close>

definition demo_scanned :: disk where
  "demo_scanned =
     \<lparr>state_doc = \<lparr>last_scan = Some (Naive 15), bootstrap_completed = True,
                   st_devices = [''dev1'' \<mapsto>
                     \<lparr>current_tier = ''24h'', count = 0, tier_start_date = Naive 15,
                      approval_status = ''NONE'', ds_total_files = 0,
                      ds_historical_files = 0,
                      device_production_start_date = Naive 10,
                      pending_approval_id = None\<rparr>]\<rparr>,
      approvals_doc = no_approvals\<rparr>"





section \<open>Properties of the binary search\<close>

lemma length_filter_split:
  fixes a :: "'a::linorder list"
  assumes "k \<le> length a"
    and "\<forall>i<k. a ! i < x"
    and "\<forall>i. k \<le> i \<and> i < length a \<longrightarrow> x \<le> a ! i"
  shows "length (filter (\<lambda>t. t < x) a) = k"
proof -
  have below: "filter (\<lambda>t. t < x) (take k a) = take k a"
    using assms(1,2) by (auto simp: filter_id_conv in_set_conv_nth)
  have above: "filter (\<lambda>t. t < x) (drop k a) = []"
  proof -
    have "\<not> t < x" if "t \<in> set (drop k a)" for t
    proof -
      from that obtain j where "j < length a - k" "t = a ! (k + j)"
        by (auto simp: in_set_conv_nth)
      with assms(3) show ?thesis by (simp add: not_less)
    qed
    then show ?thesis by (simp add: filter_empty_conv)
  qed
  have "filter (\<lambda>t. t < x) a = filter (\<lambda>t. t < x) (take k a @ drop k a)"
    by simp
  also have "\<dots> = take k a"
    unfolding filter_append below above by simp
  finally show ?thesis using assms(1) by simp
qed

lemma bisect_left_loop_sorted:
  fixes a :: "'a::linorder list"
  assumes "sorted a" "lo \<le> hi" "hi \<le> length a"
    and "\<forall>i<lo. a ! i < x"
    and "\<forall>i. hi \<le> i \<and> i < length a \<longrightarrow> x \<le> a ! i"
  shows "bisect_left_loop a x lo hi = length (filter (\<lambda>t. t < x) a)"
  using assms
proof (induction a x lo hi rule: bisect_left_loop.induct)
  case (1 a x lo hi)
  show ?case
  proof (cases "lo < hi")
    case False
    with "1.prems" have eq: "lo = hi" by simp
    have "length (filter (\<lambda>t. t < x) a) = lo"
      using "1.prems" eq by (intro length_filter_split) auto
    moreover have "bisect_left_loop a x lo hi = lo"
      using False by (subst bisect_left_loop.simps) simp
    ultimately show ?thesis by simp
  next
    case True
    define mid where "mid = (lo + hi) div 2"
    have m: "lo \<le> mid" "mid < hi" using True by (simp_all add: mid_def)
    show ?thesis
    proof (cases "a ! mid < x")
      case lt: True
      have low: "\<forall>i<mid + 1. a ! i < x"
      proof (intro allI impI)
        fix i assume "i < mid + 1"
        then have "a ! i \<le> a ! mid"
          using \<open>sorted a\<close> m "1.prems"(3) by (intro sorted_nth_mono) auto
        with lt show "a ! i < x" by simp
      qed
      have "bisect_left_loop a x (mid + 1) hi = length (filter (\<lambda>t. t < x) a)"
        using "1.IH"(1) [of mid] True lt m "1.prems" low by (simp add: mid_def)
      moreover have "bisect_left_loop a x lo hi = bisect_left_loop a x (mid + 1) hi"
        using True lt by (subst bisect_left_loop.simps) (simp add: mid_def Let_def)
      ultimately show ?thesis by simp
    next
      case ge: False
      have high: "\<forall>i. mid \<le> i \<and> i < length a \<longrightarrow> x \<le> a ! i"
      proof (intro allI impI)
        fix i assume "mid \<le> i \<and> i < length a"
        then have "a ! mid \<le> a ! i"
          using \<open>sorted a\<close> by (intro sorted_nth_mono) auto
        with ge show "x \<le> a ! i" by simp
      qed
      have "bisect_left_loop a x lo mid = length (filter (\<lambda>t. t < x) a)"
        using "1.IH"(2) [of mid] True ge m "1.prems" high by (simp add: mid_def)
      moreover have "bisect_left_loop a x lo hi = bisect_left_loop a x lo mid"
        using True ge by (subst bisect_left_loop.simps) (simp add: mid_def Let_def)
      ultimately show ?thesis by simp
    qed
  qed
qed

lemma bisect_left_sorted:
  fixes a :: "'a::linorder list"
  shows "sorted a \<Longrightarrow> bisect_left a x = length (filter (\<lambda>t. t < x) a)"
  unfolding bisect_left_def by (rule bisect_left_loop_sorted) auto


lemma length_filter_sort_key:
  "length (filter P (sort_key f xs)) = length (filter P xs)"
proof -
  have "mset (filter P (sort_key f xs)) = mset (filter P xs)"
    by (simp only: mset_filter mset_sort)
  then show ?thesis by (rule mset_eq_length)
qed

lemma length_filter_map_fst:
  "length (filter (\<lambda>t. t < x) (map fst ts)) = length (filter (\<lambda>(t, n). t < x) ts)"
  by (induction ts) auto

lemma length_filter_complement:
  fixes x :: instant
  shows "int (length ts) - int (length (filter (\<lambda>(t, n). t < x) ts)) =
    int (length (filter (\<lambda>(t, n). x \<le> t) ts))"
  by (induction ts) (auto simp: not_less)

lemma binary_search_file_count_sorted:
  assumes "sorted (map fst ts)"
  shows "binary_search_file_count ts cutoff =
    \<lparr>total_files = int (length ts),
     historical_files = int (length (filter (\<lambda>(t, n). t < cutoff) ts)),
     new_files = int (length (filter (\<lambda>(t, n). cutoff \<le> t) ts))\<rparr>"
proof (cases "ts = []")
  case True
  then show ?thesis by (simp add: binary_search_file_count_def no_files_def)
next
  case False
  have idx: "bisect_left (map fst ts) cutoff = length (filter (\<lambda>(t, n). t < cutoff) ts)"
    by (simp only: bisect_left_sorted [OF assms] length_filter_map_fst)
  from False show ?thesis
    unfolding binary_search_file_count_def Let_def idx
    by (simp add: length_filter_complement)
qed

section \<open>The cutoff counter: totals, tie-break and edge cases\<close>

text \<open>
  C3. For every timestamp sequence sorted ascending and every cutoff, the cutoff counter
  returns \<open>total\<close> equal to the length of the sequence, \<open>historical + new = total\<close>, and
  \<open>historical\<close> equal to the number of timestamps strictly less than the cutoff. The
  empty sequence gives three zeros; a cutoff at or before the earliest timestamp gives
  \<open>historical = 0\<close>; a cutoff strictly after the latest timestamp gives \<open>new = 0\<close>.
\<close>

theorem cutoff_counter_counts:
  assumes "sorted (map fst ts)"
  shows "total_files (binary_search_file_count ts cutoff) = int (length ts)
    \<and> historical_files (binary_search_file_count ts cutoff)
        + new_files (binary_search_file_count ts cutoff)
        = total_files (binary_search_file_count ts cutoff)
    \<and> historical_files (binary_search_file_count ts cutoff)
        = int (length (filter (\<lambda>(t, n). t < cutoff) ts))
    \<and> (ts = [] \<longrightarrow> binary_search_file_count ts cutoff = no_files)
    \<and> (ts \<noteq> [] \<and> cutoff \<le> fst (hd ts) \<longrightarrow>
          historical_files (binary_search_file_count ts cutoff) = 0
          \<and> new_files (binary_search_file_count ts cutoff) = int (length ts))
    \<and> (ts \<noteq> [] \<and> fst (last ts) < cutoff \<longrightarrow>
          new_files (binary_search_file_count ts cutoff) = 0
          \<and> historical_files (binary_search_file_count ts cutoff) = int (length ts))"
proof -
  let ?fc = "binary_search_file_count ts cutoff"
  note eq = binary_search_file_count_sorted [OF assms, of cutoff]
  have total: "total_files ?fc = int (length ts)" by (simp add: eq)
  have hist: "historical_files ?fc = int (length (filter (\<lambda>(t, n). t < cutoff) ts))"
    by (simp add: eq)
  have new: "new_files ?fc = int (length (filter (\<lambda>(t, n). cutoff \<le> t) ts))"
    by (simp add: eq)
  have sum: "historical_files ?fc + new_files ?fc = total_files ?fc"
    unfolding total hist new using length_filter_complement [of ts cutoff] by simp
  have empty: "ts = [] \<longrightarrow> ?fc = no_files"
    by (simp add: binary_search_file_count_def)
  have early: "historical_files ?fc = 0 \<and> new_files ?fc = int (length ts)"
    if "ts \<noteq> []" "cutoff \<le> fst (hd ts)"
  proof -
    have "cutoff \<le> fst p" if "p \<in> set ts" for p
    proof -
      from \<open>ts \<noteq> []\<close> obtain q qs where ts: "ts = q # qs" by (cases ts) auto
      with assms that have "fst q \<le> fst p" by auto
      with \<open>cutoff \<le> fst (hd ts)\<close> ts show ?thesis by simp
    qed
    then have "filter (\<lambda>(t, n). t < cutoff) ts = []"
      by (fastforce simp: filter_empty_conv not_less)
    then have "historical_files ?fc = 0" by (simp add: hist)
    with sum total show ?thesis by simp
  qed
  have late: "new_files ?fc = 0 \<and> historical_files ?fc = int (length ts)"
    if "ts \<noteq> []" "fst (last ts) < cutoff"
  proof -
    have "fst p < cutoff" if "p \<in> set ts" for p
    proof -
      from that obtain i where i: "i < length ts" "p = ts ! i"
        by (auto simp: in_set_conv_nth)
      have "map fst ts ! i \<le> map fst ts ! (length ts - 1)"
        using assms i by (intro sorted_nth_mono) auto
      then have "fst p \<le> fst (last ts)"
        using i \<open>ts \<noteq> []\<close> by (simp add: last_conv_nth)
      with \<open>fst (last ts) < cutoff\<close> show ?thesis by simp
    qed
    then have "filter (\<lambda>(t, n). cutoff \<le> t) ts = []"
      by (fastforce simp: filter_empty_conv not_le)
    then have "new_files ?fc = 0" by (simp add: new)
    with sum total show ?thesis by simp
  qed
  from total sum hist empty early late show ?thesis by blast
qed

theorem cutoff_counter_counts_witness:
  "sorted (map fst [(1, ''a''), (3, ''b''), (3, ''c''), (7 :: instant, ''d'')])
   \<and> total_files (binary_search_file_count [(1, ''a''), (3, ''b''), (3, ''c''), (7, ''d'')] 3) = 4
   \<and> historical_files (binary_search_file_count [(1, ''a''), (3, ''b''), (3, ''c''), (7, ''d'')] 3) = 1"
proof -
  have h: "sorted (map fst [(1, ''a''), (3, ''b''), (3, ''c''), (7 :: instant, ''d'')])"
    by simp
  show ?thesis
    using h cutoff_counter_counts [OF h, of 3] by simp
qed



section \<open>Collecting the timestamps of an inbox\<close>

lemma sorted_bulk_collect: "sorted (map fst (bulk_collect_file_timestamps e name))"
  by (simp add: bulk_collect_file_timestamps_def split: access.splits)

lemma bulk_collect_ok:
  "access e name = Scan_ok \<Longrightarrow> bulk_collect_file_timestamps e name = sort_key fst (inbox e name)"
  by (simp add: bulk_collect_file_timestamps_def)

lemma bulk_collect_observed:
  "bulk_collect_file_timestamps e name = sort_key fst (observed e name)"
  by (simp add: bulk_collect_file_timestamps_def observed_def split: access.splits)

lemma bulk_collect_empty_iff:
  "bulk_collect_file_timestamps e name = [] \<longleftrightarrow> observed e name = []"
  using length_sort [of fst "observed e name"]
  by (auto simp: bulk_collect_observed simp del: length_sort)

lemma length_bulk_collect:
  "length (bulk_collect_file_timestamps e name) = length (observed e name)"
  by (simp add: bulk_collect_observed)

lemma binary_search_file_count_collected:
  "binary_search_file_count (bulk_collect_file_timestamps e name) cutoff =
    \<lparr>total_files = int (length (observed e name)),
     historical_files = int (length (filter (\<lambda>(t, n). t < cutoff) (observed e name))),
     new_files = int (length (filter (\<lambda>(t, n). cutoff \<le> t) (observed e name)))\<rparr>"
  unfolding binary_search_file_count_sorted [OF sorted_bulk_collect]
  by (simp add: bulk_collect_observed length_filter_sort_key)

section \<open>The tie-break at the cutoff\<close>




section \<open>What an update does to the object\<close>

lemma put_device_simps [simp]:
  "config (put_device name ds c) = config c"
  "bootstrap_mode (put_device name ds c) = bootstrap_mode c"
  "pending_approvals (put_device name ds c) = pending_approvals c"
  "state_file (put_device name ds c) = state_file c"
  "approvals_file (put_device name ds c) = approvals_file c"
  "last_scan (state (put_device name ds c)) = last_scan (state c)"
  "bootstrap_completed (state (put_device name ds c)) = bootstrap_completed (state c)"
  "st_devices (state (put_device name ds c)) = (st_devices (state c))(name \<mapsto> ds)"
  by (simp_all add: put_device_def)

lemma save_pending_approvals_simps [simp]:
  "config (save_pending_approvals c) = config c"
  "bootstrap_mode (save_pending_approvals c) = bootstrap_mode c"
  "pending_approvals (save_pending_approvals c) = pending_approvals c"
  "state (save_pending_approvals c) = state c"
  "state_file (save_pending_approvals c) = state_file c"
  "approvals_file (save_pending_approvals c) = pending_approvals c"
  by (simp_all add: save_pending_approvals_def)

lemma save_state_simps [simp]:
  "config (save_state c) = config c"
  "bootstrap_mode (save_state c) = bootstrap_mode c"
  "pending_approvals (save_state c) = pending_approvals c"
  "state (save_state c) = state c"
  "state_file (save_state c) = state c"
  "approvals_file (save_state c) = approvals_file c"
  by (simp_all add: save_state_def)

lemma final_simps [simp]:
  "final (Inl (err, c)) = c"
  "final (Inr (x, c)) = c"
  by (simp_all add: final_def)

lemma initialize_device_state_fresh:
  "initialize_device_state c e name = Inr ds \<Longrightarrow>
    count ds = 0 \<and> approval_status ds = ''NONE''"
  by (auto simp: initialize_device_state_def split: option.splits)

text \<open>Where an update leaves the object, whether it returns or raises.\<close>

lemma check_and_handle_tier_advancement_final:
  obtains
    (stored) "final (check_and_handle_tier_advancement c e name ds) = put_device name ds c"
  | (requested) r where
      "final (check_and_handle_tier_advancement c e name ds) =
         put_device name
           (ds\<lparr>approval_status := ''PENDING_APPROVAL'',
               pending_approval_id := Some (uuid4 e name)\<rparr>)
           (save_pending_approvals
              (c\<lparr>pending_approvals :=
                   (pending_approvals c)
                     \<lparr>pending := (pending (pending_approvals c))(uuid4 e name \<mapsto> r)\<rparr>\<rparr>))"
proof (cases "current_tier ds \<in> set (excluded_tiers (config c))")
  case True
  then show thesis by (intro stored) (simp add: check_and_handle_tier_advancement_def)
next
  case notex: False
  show thesis
  proof (cases "tier_requirements (config c)")
    case None
    with notex show thesis
      by (intro stored) (simp add: check_and_handle_tier_advancement_def)
  next
    case (Some req)
    show thesis
    proof (cases "eligible_tier req (current_tier ds) (count ds)")
      case (Inl err)
      with notex Some show thesis
        by (intro stored) (simp add: check_and_handle_tier_advancement_def)
    next
      case (Inr el)
      show thesis
      proof (cases el)
        case None
        with notex Some Inr show thesis
          by (intro stored) (simp add: check_and_handle_tier_advancement_def)
      next
        case el: (Some t)
        show thesis
        proof (cases "t \<noteq> [] \<and> t \<noteq> current_tier ds")
          case False
          with notex Some Inr el show thesis
            by (intro stored) (auto simp: check_and_handle_tier_advancement_def)
        next
          case True
          define r where "r = \<lparr>approval_id = uuid4 e name,
                           device_name = name,
                           ar_current_tier = current_tier ds,
                           proposed_tier = t,
                           unit_count = count ds,
                           request_date = clock e (Request_date name),
                           status = ''PENDING'',
                           decision_date = None,
                           approver = None\<rparr>"
          define c2 where "c2 = put_device name
           (ds\<lparr>approval_status := ''PENDING_APPROVAL'',
               pending_approval_id := Some (uuid4 e name)\<rparr>)
           (save_pending_approvals
              (c\<lparr>pending_approvals :=
                   (pending_approvals c)
                     \<lparr>pending := (pending (pending_approvals c))(uuid4 e name \<mapsto> r)\<rparr>\<rparr>))"
          have "final (check_and_handle_tier_advancement c e name ds) = c2"
          proof (cases "email_enabled (config c)")
            case False
            with True notex Some Inr el show ?thesis
              by (simp add: check_and_handle_tier_advancement_def create_approval_request_def
                  Let_def c2_def r_def)
          next
            case on: True
            show ?thesis
            proof (cases "send_approval_request_email c2 (uuid4 e name)")
              case None
              from None [unfolded c2_def r_def] on True notex Some Inr el show ?thesis
                by (simp add: check_and_handle_tier_advancement_def
                    create_approval_request_def Let_def c2_def r_def)
            next
              case (Some err)
              from Some [unfolded c2_def r_def] on True notex \<open>tier_requirements (config c) = Some req\<close>
                Inr el show ?thesis
                by (simp add: check_and_handle_tier_advancement_def
                    create_approval_request_def Let_def c2_def r_def)
            qed
          qed
          then show thesis by (intro requested [of r]) (simp add: c2_def)
        qed
      qed
    qed
  qed
qed

lemma update_device_state_final:
  obtains
    (unchanged) "final (update_device_state c e name fc) = c"
  | (stored) ds where "final (update_device_state c e name fc) = put_device name ds c"
  | (requested) ds r where
      "final (update_device_state c e name fc) =
         put_device name ds
           (save_pending_approvals
              (c\<lparr>pending_approvals :=
                   (pending_approvals c)
                     \<lparr>pending := (pending (pending_approvals c))(uuid4 e name \<mapsto> r)\<rparr>\<rparr>))"
proof -
  let ?d = "case st_devices (state c) name of
          None \<Rightarrow> initialize_device_state c e name | Some ds \<Rightarrow> Inr ds"
  show thesis
  proof (cases ?d)
    case (Inl err)
    then show thesis by (intro unchanged) (simp add: update_device_state_def)
  next
    case (Inr ds0)
    define ds1 where "ds1 = ds0\<lparr>ds_total_files := total_files fc,
                  ds_historical_files := historical_files fc,
                  device_production_start_date :=
                    get_device_production_start_date (config c)
                      (clock e (Update_fallback name)) name\<rparr>"
    show thesis
    proof (cases "approval_status ds0 = ''PENDING_APPROVAL''")
      case True
      with Inr show thesis
        by (intro stored [of ds1]) (simp add: update_device_state_def ds1_def)
    next
      case False
      define ds2 where "ds2 = ds1\<lparr>count := count ds1 + new_files fc\<rparr>"
      from Inr False have eq: "update_device_state c e name fc
          = check_and_handle_tier_advancement c e name ds2"
        by (simp add: update_device_state_def ds1_def ds2_def Let_def)
      show thesis
        by (rule check_and_handle_tier_advancement_final [of c e name ds2])
          (auto simp: eq intro: stored requested)
    qed
  qed
qed

lemma update_device_state_frame:
  shows "config (final (update_device_state c e name fc)) = config c"
    and "bootstrap_mode (final (update_device_state c e name fc)) = bootstrap_mode c"
    and "last_scan (state (final (update_device_state c e name fc))) = last_scan (state c)"
    and "bootstrap_completed (state (final (update_device_state c e name fc)))
          = bootstrap_completed (state c)"
    and "state_file (final (update_device_state c e name fc)) = state_file c"
    and "history (pending_approvals (final (update_device_state c e name fc)))
          = history (pending_approvals c)"
    and "n \<noteq> name \<Longrightarrow>
          st_devices (state (final (update_device_state c e name fc))) n
            = st_devices (state c) n"
  by (rule update_device_state_final [of c e name fc]; simp)+

text \<open>What an update that returns has done.\<close>

lemma update_device_state_cases:
  assumes "update_device_state c e name fc = Inr (u, c')"
  obtains
    (frozen) ds where
      "st_devices (state c) name = Some ds" "approval_status ds = ''PENDING_APPROVAL''"
      "c' = put_device name
              (ds\<lparr>ds_total_files := total_files fc,
                  ds_historical_files := historical_files fc,
                  device_production_start_date :=
                    get_device_production_start_date (config c)
                      (clock e (Update_fallback name)) name\<rparr>) c"
  | (counted) ds0 where
      "(case st_devices (state c) name of
          None \<Rightarrow> initialize_device_state c e name | Some ds \<Rightarrow> Inr ds) = Inr ds0"
      "approval_status ds0 \<noteq> ''PENDING_APPROVAL''"
      "c' = put_device name
              (ds0\<lparr>ds_total_files := total_files fc,
                   ds_historical_files := historical_files fc,
                   device_production_start_date :=
                     get_device_production_start_date (config c)
                       (clock e (Update_fallback name)) name,
                   count := count ds0 + new_files fc\<rparr>) c"
  | (requested) ds0 req t where
      "(case st_devices (state c) name of
          None \<Rightarrow> initialize_device_state c e name | Some ds \<Rightarrow> Inr ds) = Inr ds0"
      "approval_status ds0 \<noteq> ''PENDING_APPROVAL''"
      "tier_requirements (config c) = Some req"
      "eligible_tier req (current_tier ds0) (count ds0 + new_files fc) = Inr (Some t)"
      "c' = put_device name
              (ds0\<lparr>ds_total_files := total_files fc,
                   ds_historical_files := historical_files fc,
                   device_production_start_date :=
                     get_device_production_start_date (config c)
                       (clock e (Update_fallback name)) name,
                   count := count ds0 + new_files fc,
                   approval_status := ''PENDING_APPROVAL'',
                   pending_approval_id := Some (uuid4 e name)\<rparr>)
              (save_pending_approvals
                (c\<lparr>pending_approvals :=
                   (pending_approvals c)
                     \<lparr>pending := (pending (pending_approvals c))
                        (uuid4 e name \<mapsto>
                          \<lparr>approval_id = uuid4 e name,
                           device_name = name,
                           ar_current_tier = current_tier ds0,
                           proposed_tier = t,
                           unit_count = count ds0 + new_files fc,
                           request_date = clock e (Request_date name),
                           status = ''PENDING'',
                           decision_date = None,
                           approver = None\<rparr>)\<rparr>\<rparr>))"
proof -
  let ?d = "case st_devices (state c) name of
          None \<Rightarrow> initialize_device_state c e name | Some ds \<Rightarrow> Inr ds"
  from assms obtain ds0 where d0: "?d = Inr ds0"
    by (auto simp: update_device_state_def split: sum.splits)
  define ds1 where "ds1 = ds0\<lparr>ds_total_files := total_files fc,
                  ds_historical_files := historical_files fc,
                  device_production_start_date :=
                    get_device_production_start_date (config c)
                      (clock e (Update_fallback name)) name\<rparr>"
  show thesis
  proof (cases "approval_status ds0 = ''PENDING_APPROVAL''")
    case True
    with d0 have "st_devices (state c) name = Some ds0"
      by (auto split: option.splits dest: initialize_device_state_fresh)
    moreover from assms d0 True have "c' = put_device name ds1 c"
      by (simp add: update_device_state_def ds1_def)
    ultimately show thesis using True by (intro frozen) (simp_all add: ds1_def)
  next
    case False
    define ds2 where "ds2 = ds1\<lparr>count := count ds1 + new_files fc\<rparr>"
    from assms d0 False have chk:
      "check_and_handle_tier_advancement c e name ds2 = Inr (u, c')"
      by (simp add: update_device_state_def ds1_def ds2_def Let_def)
    have tier: "current_tier ds2 = current_tier ds0" "count ds2 = count ds0 + new_files fc"
      by (simp_all add: ds2_def ds1_def)
    show thesis
    proof (cases "current_tier ds2 \<in> set (excluded_tiers (config c))")
      case True
      with chk have "c' = put_device name ds2 c"
        by (simp add: check_and_handle_tier_advancement_def)
      with d0 False show thesis by (intro counted) (simp_all add: ds2_def ds1_def)
    next
      case notex: False
      with chk obtain req where req: "tier_requirements (config c) = Some req"
        by (auto simp: check_and_handle_tier_advancement_def split: option.splits)
      with chk notex obtain el where
        el: "eligible_tier req (current_tier ds2) (count ds2) = Inr el"
        by (auto simp: check_and_handle_tier_advancement_def split: sum.splits)
      show thesis
      proof (cases el)
        case None
        with chk notex req el have "c' = put_device name ds2 c"
          by (simp add: check_and_handle_tier_advancement_def)
        with d0 False show thesis by (intro counted) (simp_all add: ds2_def ds1_def)
      next
        case (Some t)
        show thesis
        proof (cases "t \<noteq> [] \<and> t \<noteq> current_tier ds2")
          case no: False
          with chk notex req el Some have "c' = put_device name ds2 c"
            by (auto simp: check_and_handle_tier_advancement_def)
          with d0 False show thesis by (intro counted) (simp_all add: ds2_def ds1_def)
        next
          case True
          with chk notex req el Some have "c' = put_device name
              (ds2\<lparr>approval_status := ''PENDING_APPROVAL'',
                   pending_approval_id := Some (uuid4 e name)\<rparr>)
              (save_pending_approvals
                (c\<lparr>pending_approvals :=
                   (pending_approvals c)
                     \<lparr>pending := (pending (pending_approvals c))
                        (uuid4 e name \<mapsto>
                          \<lparr>approval_id = uuid4 e name,
                           device_name = name,
                           ar_current_tier = current_tier ds2,
                           proposed_tier = t,
                           unit_count = count ds2,
                           request_date = clock e (Request_date name),
                           status = ''PENDING'',
                           decision_date = None,
                           approver = None\<rparr>)\<rparr>\<rparr>))"
            by (auto simp: check_and_handle_tier_advancement_def create_approval_request_def
                Let_def split: option.splits if_splits)
          with d0 False req el Some tier show thesis
            by (intro requested [of ds0 req t]) (simp_all add: ds2_def ds1_def)
        qed
      qed
    qed
  qed
qed

section \<open>The device loop and the ways a run ends\<close>

lemma scan_devices_loop_Cons_final:
  obtains
    (stopped) "final (scan_devices_loop c e (n # names) acc) = c"
  | (raised) dc fc where
      "map_of (devices (config c)) n = Some dc"
      "scan_device_optimized c e n dc = Inr fc"
      "final (scan_devices_loop c e (n # names) acc) = final (update_device_state c e n fc)"
  | (continued) dc fc u c1 where
      "map_of (devices (config c)) n = Some dc"
      "scan_device_optimized c e n dc = Inr fc"
      "update_device_state c e n fc = Inr (u, c1)"
      "scan_devices_loop c e (n # names) acc = scan_devices_loop c1 e names (acc @ [(n, fc)])"
proof (cases "map_of (devices (config c)) n")
  case None
  then show thesis by (intro stopped) simp
next
  case (Some dc)
  show thesis
  proof (cases "scan_device_optimized c e n dc")
    case (Inl err)
    with Some show thesis by (intro stopped) simp
  next
    case (Inr fc)
    show thesis
    proof (cases "update_device_state c e n fc")
      case (Inl r)
      with Some Inr show thesis by (intro raised [of dc fc]) (simp_all add: final_def)
    next
      case upd: (Inr p)
      obtain u c1 where p: "p = (u, c1)" by (cases p)
      with Some Inr upd show thesis by (intro continued [of dc fc u c1]) simp_all
    qed
  qed
qed

lemma scan_devices_loop_Cons_Inr:
  assumes "scan_devices_loop c e (n # names) acc = Inr (res, c')"
  obtains dc fc u c1 where
      "map_of (devices (config c)) n = Some dc"
      "scan_device_optimized c e n dc = Inr fc"
      "update_device_state c e n fc = Inr (u, c1)"
      "scan_devices_loop c1 e names (acc @ [(n, fc)]) = Inr (res, c')"
  using assms by (auto split: option.splits sum.splits)

lemma scan_devices_loop_frame:
  "config (final (scan_devices_loop c e names acc)) = config c
   \<and> bootstrap_mode (final (scan_devices_loop c e names acc)) = bootstrap_mode c
   \<and> last_scan (state (final (scan_devices_loop c e names acc))) = last_scan (state c)
   \<and> bootstrap_completed (state (final (scan_devices_loop c e names acc)))
       = bootstrap_completed (state c)
   \<and> state_file (final (scan_devices_loop c e names acc)) = state_file c
   \<and> history (pending_approvals (final (scan_devices_loop c e names acc)))
       = history (pending_approvals c)
   \<and> (n \<notin> set names \<longrightarrow>
        st_devices (state (final (scan_devices_loop c e names acc))) n
          = st_devices (state c) n)"
proof (induction names arbitrary: c acc)
  case Nil
  show ?case by simp
next
  case (Cons m names)
  show ?case
  proof (cases rule: scan_devices_loop_Cons_final [of c e m names acc])
    case stopped
    then show ?thesis by simp
  next
    case (raised dc fc)
    then show ?thesis by (simp add: update_device_state_frame)
  next
    case (continued dc fc u c1)
    from continued(3) have c1: "c1 = final (update_device_state c e m fc)" by simp
    show ?thesis
      unfolding continued(4)
      using Cons.IH [of c1 "acc @ [(m, fc)]"]
      by (simp add: c1 update_device_state_frame)
  qed
qed

lemma scan_devices_loop_results:
  assumes "scan_devices_loop c e names acc = Inr (res, c')"
  shows "(res = []) = (names = [] \<and> acc = [])"
  using assms
proof (induction names arbitrary: c acc)
  case Nil
  then show ?case by auto
next
  case (Cons n names)
  from Cons.prems obtain fc c1 where
    rest: "scan_devices_loop c1 e names (acc @ [(n, fc)]) = Inr (res, c')"
    by (rule scan_devices_loop_Cons_Inr)
  from Cons.IH [OF rest] show ?case by simp
qed

text \<open>
  The ways a run ends. Only the last two write the state file, with the start time of
  the run as the last scan instant.
\<close>

lemma run_scan_cases:
  obtains
    (loop_raised) err c1 where
      "scan_devices_loop c e (enabled_devices (config c)) [] = Inl (err, c1)"
      "run_scan c e = Inl (err, c1)"
  | (division) res c1 where
      "scan_devices_loop c e (enabled_devices (config c)) [] = Inr (res, c1)"
      "clock e Scan_end = clock e Scan_start"
      "run_scan c e = Inl (ZeroDivisionError, c1)"
  | (idle) 
      "enabled_devices (config c) = []" "clock e Scan_end \<noteq> clock e Scan_start"
      "run_scan c e = Inr (False, c)"
  | (saved) res c1 where
      "scan_devices_loop c e (enabled_devices (config c)) [] = Inr (res, c1)"
      "enabled_devices (config c) \<noteq> []" "clock e Scan_end \<noteq> clock e Scan_start"
      "final (run_scan c e) =
         save_state
           (c1\<lparr>state := (state c1)\<lparr>bootstrap_completed := True,
                                    last_scan := Some (clock e Start_time)\<rparr>,
               config := (if bootstrap_completed (state c1) then config c1
                          else clear_bootstrap_mode (config c1))\<rparr>)"
      "run_scan c e = Inr (True, final (run_scan c e))
        \<or> run_scan c e = Inl (ZeroDivisionError, final (run_scan c e))"
proof (cases "scan_devices_loop c e (enabled_devices (config c)) []")
  case (Inl p)
  obtain err c1 where "p = (err, c1)" by (cases p)
  with Inl show thesis
    by (intro loop_raised [of err c1]) (simp_all add: run_scan_def scan_all_devices_def)
next
  case (Inr p)
  obtain res c1 where p: "p = (res, c1)" by (cases p)
  note loop = Inr [unfolded p]
  note r = scan_devices_loop_results [OF loop]
  show thesis
  proof (cases "clock e Scan_end = clock e Scan_start")
    case True
    with loop show thesis
      by (intro division [of res c1]) (simp_all add: run_scan_def scan_all_devices_def)
  next
    case ticks: False
    show thesis
    proof (cases "enabled_devices (config c) = []")
      case True
      with loop have "res = []" "c1 = c" by simp_all
      with loop ticks True show thesis
        by (intro idle) (simp_all add: run_scan_def scan_all_devices_def)
    next
      case False
      with r have ne: "res \<noteq> []" by simp
      have fin: "final (run_scan c e) =
         save_state
           (c1\<lparr>state := (state c1)\<lparr>bootstrap_completed := True,
                                    last_scan := Some (clock e Start_time)\<rparr>,
               config := (if bootstrap_completed (state c1) then config c1
                          else clear_bootstrap_mode (config c1))\<rparr>)"
        using loop ticks ne
        by (simp add: run_scan_def scan_all_devices_def Let_def save_state_def)
      have "run_scan c e = Inr (True, final (run_scan c e))
        \<or> run_scan c e = Inl (ZeroDivisionError, final (run_scan c e))"
        using loop ticks ne
        by (simp add: run_scan_def scan_all_devices_def Let_def)
      with loop False ticks fin show thesis by (intro saved [of res c1])
    qed
  qed
qed

lemma saves_state_iff:
  "saves_state c e \<longleftrightarrow>
    (\<exists>res c1. scan_devices_loop c e (enabled_devices (config c)) [] = Inr (res, c1))
    \<and> enabled_devices (config c) \<noteq> [] \<and> clock e Scan_end \<noteq> clock e Scan_start"
proof (cases "scan_devices_loop c e (enabled_devices (config c)) []")
  case (Inl p)
  then show ?thesis by (simp add: saves_state_def scan_all_devices_def)
next
  case (Inr p)
  obtain res c1 where p: "p = (res, c1)" by (cases p)
  from scan_devices_loop_results [OF Inr [unfolded p]] Inr p show ?thesis
    by (auto simp: saves_state_def scan_all_devices_def)
qed

section \<open>Running the small installation\<close>

lemmas demo_eval =
  step.simps run_events.simps disk_of_def final_def
  run_scan_def scan_all_devices_def enabled_devices_def scan_device_optimized_def
  update_device_state_def initialize_device_state_def check_and_handle_tier_advancement_def
  create_approval_request_def eligible_tier_def send_approval_request_email_def
  put_device_def save_state_def save_pending_approvals_def
  get_device_production_start_date_def binary_search_file_count_collected
  bulk_collect_empty_iff length_bulk_collect observed_def
  all_historical_def no_files_def clear_bootstrap_mode_def
  demo_env_def demo_device_def demo_config_def demo_requirements_def
  init_def initial_disk_def create_initial_state_def no_approvals_def Let_def

lemma demo_first_scan:
  "step initial_disk (Scan demo_config (demo_env demo_files 20)) = demo_requested"
  by (simp add: demo_eval demo_files_def demo_requested_def demo_request_def
      demo_pending_device_def)

lemma reachable_demo_requested: "reachable demo_requested"
  using reachable_step [OF reachable_init, of "Scan demo_config (demo_env demo_files 20)"]
  by (simp only: demo_first_scan)

lemma disk_of_init [simp]: "disk_of (init cfg d) = d"
  by (simp add: disk_of_def init_def)

lemma init_simps [simp]:
  "config (init cfg d) = cfg"
  "state (init cfg d) = state_doc d"
  "pending_approvals (init cfg d) = approvals_doc d"
  "state_file (init cfg d) = state_doc d"
  "approvals_file (init cfg d) = approvals_doc d"
  by (simp_all add: init_def)

section \<open>Resolving approval requests\<close>

lemma process_approval_decision_cases:
  assumes "process_approval_decision c t_tier t_decision aid decision who = Inr (ok, c')"
  obtains (unknown) "pending (pending_approvals c) aid = None" "\<not> ok" "c' = c"
  | (resolved) r ds where
      "pending (pending_approvals c) aid = Some r"
      "st_devices (state c) (device_name r) = Some ds" "ok"
      "c' = save_pending_approvals (save_state
            ((put_device (device_name r)
              ((if decision = ''APPROVE'' then
                  ds\<lparr>current_tier := proposed_tier r, count := 0,
                     tier_start_date := t_tier, approval_status := ''APPROVED''\<rparr>
                else if decision = ''REJECT'' then
                  ds\<lparr>count := 0, tier_start_date := t_tier,
                     approval_status := ''REJECTED''\<rparr>
                else ds)\<lparr>pending_approval_id := None\<rparr>) c)
            \<lparr>pending_approvals :=
               \<lparr>pending = (pending (pending_approvals c))(aid := None),
                history = history (pending_approvals c) @
                  [r\<lparr>status := decision, decision_date := Some t_decision,
                     approver := Some who\<rparr>]\<rparr>\<rparr>))"
  using assms
  by (auto simp: process_approval_decision_def Let_def split: option.splits)

text \<open>
  C8. For every approval id that is not in the pending set, resolving it with any
  decision and approver returns false and leaves the whole object unchanged: no device
  field, no pending entry and no history entry is modified, and the files on disk stay
  as they are. An id that has just been resolved is no longer pending, so resolving it
  again fails in the same way.
\<close>

theorem resolve_unknown_id:
  "(pending (pending_approvals c) aid = None \<longrightarrow>
      process_approval_decision c t_tier t_decision aid decision who = Inr (False, c))
   \<and> (process_approval_decision c t_tier t_decision aid decision who = Inr (True, c') \<longrightarrow>
      process_approval_decision c' t_tier' t_decision' aid decision' who' = Inr (False, c'))
   \<and> (pending (approvals_doc d) aid = None \<longrightarrow>
      step d (Resolve cfg t_tier t_decision aid decision who) = d)"
proof -
  have unknown: "process_approval_decision k u v aid x w = Inr (False, k)"
    if "pending (pending_approvals k) aid = None" for k u v x w
    using that by (simp add: process_approval_decision_def)
  have "pending (pending_approvals c') aid = None"
    if "process_approval_decision c t_tier t_decision aid decision who = Inr (True, c')"
    using that by (cases rule: process_approval_decision_cases) simp_all
  moreover have "step d (Resolve cfg t_tier t_decision aid decision who) = d"
    if "pending (approvals_doc d) aid = None"
    using unknown [of "init cfg d"] that by simp
  ultimately show ?thesis using unknown by blast
qed

theorem resolve_unknown_id_witness:
  "process_approval_decision (init demo_config demo_requested) (Naive 30) (Naive 31)
     ''missing'' ''APPROVE'' ''alice'' = Inr (False, init demo_config demo_requested)
   \<and> step demo_requested
       (Resolve demo_config (Naive 30) (Naive 31) ''missing'' ''APPROVE'' ''alice'')
     = demo_requested"
  using resolve_unknown_id [where c = "init demo_config demo_requested"
      and d = demo_requested and cfg = demo_config
      and aid = "''missing''" and t_tier = "Naive 30" and t_decision = "Naive 31"
      and decision = "''APPROVE''" and who = "''alice''"]
  by (simp add: demo_requested_def)


section \<open>Counting is frozen while an approval is pending\<close>

lemma update_device_state_frozen:
  assumes u: "update_device_state c e n fc = Inr (v, c')"
    and d: "st_devices (state c) name = Some ds"
    and p: "approval_status ds = ''PENDING_APPROVAL''"
  shows "\<exists>ds'. st_devices (state c') name = Some ds' \<and> count ds' = count ds
    \<and> approval_status ds' = ''PENDING_APPROVAL''"
proof (cases "n = name")
  case False
  from u have "c' = final (update_device_state c e n fc)" by simp
  with update_device_state_frame(7) [of name n c e fc] False d p show ?thesis by simp
next
  case True
  from u show ?thesis
  proof (cases rule: update_device_state_cases)
    case (frozen ds1)
    with True d p show ?thesis by simp
  next
    case (counted ds0)
    with True d p show ?thesis by simp
  next
    case (requested ds0 req t)
    with True d p show ?thesis by simp
  qed
qed

lemma scan_devices_loop_frozen:
  assumes "scan_devices_loop c e names acc = Inr (res, c')"
    and "st_devices (state c) name = Some ds"
    and "approval_status ds = ''PENDING_APPROVAL''"
  shows "\<exists>ds'. st_devices (state c') name = Some ds' \<and> count ds' = count ds
    \<and> approval_status ds' = ''PENDING_APPROVAL''"
  using assms
proof (induction names arbitrary: c acc ds)
  case Nil
  then show ?case by simp
next
  case (Cons n names)
  from Cons.prems(1) obtain dc fc u c1 where
    c1: "update_device_state c e n fc = Inr (u, c1)"
    and rest: "scan_devices_loop c1 e names (acc @ [(n, fc)]) = Inr (res, c')"
    by (rule scan_devices_loop_Cons_Inr)
  from update_device_state_frozen [OF c1 Cons.prems(2,3)] obtain d1 where
    d1: "st_devices (state c1) name = Some d1" "count d1 = count ds"
    "approval_status d1 = ''PENDING_APPROVAL''" by blast
  from Cons.IH [OF rest d1(1,3)] d1(2) show ?case by simp
qed

text \<open>The state file after a run: untouched, or the state the loop returned.\<close>

lemma run_scan_state_file:
  obtains
    (kept) "state_file (final (run_scan c e)) = state_file c"
  | (written) res c1 where
      "scan_devices_loop c e (enabled_devices (config c)) [] = Inr (res, c1)"
      "enabled_devices (config c) \<noteq> []" "clock e Scan_end \<noteq> clock e Scan_start"
      "state_file (final (run_scan c e)) =
         (state c1)\<lparr>bootstrap_completed := True, last_scan := Some (clock e Start_time)\<rparr>"
proof (cases rule: run_scan_cases [of c e])
  case (loop_raised err c1)
  from scan_devices_loop_frame [of c e "enabled_devices (config c)" "[]"] loop_raised
  show ?thesis by (intro kept) simp
next
  case (division res c1)
  from scan_devices_loop_frame [of c e "enabled_devices (config c)" "[]"] division
  show ?thesis by (intro kept) simp
next
  case idle
  then show ?thesis by (intro kept) simp
next
  case (saved res c1)
  then show ?thesis by (intro written [of res c1]) simp_all
qed

lemma step_scan_frozen:
  assumes d: "st_devices (state_doc d) name = Some ds"
    and p: "approval_status ds = ''PENDING_APPROVAL''"
  shows "\<exists>ds'. st_devices (state_doc (step d (Scan cfg e))) name = Some ds'
    \<and> count ds' = count ds \<and> approval_status ds' = ''PENDING_APPROVAL''"
proof (cases rule: run_scan_state_file [of "init cfg d" e])
  case kept
  with d p show ?thesis by (simp add: disk_of_def)
next
  case (written res c1)
  from scan_devices_loop_frozen [OF written(1), of name ds] d p
  show ?thesis by (simp add: disk_of_def written(4))
qed

text \<open>
  C4. For every device whose approval status on disk is PENDING_APPROVAL, any sequence
  of scan invocations, each with any configuration and any environment, whether it
  returns or raises, leaves the device's count unchanged and the device pending.
\<close>

theorem pending_count_frozen:
  assumes "st_devices (state_doc d) name = Some ds"
    and "approval_status ds = ''PENDING_APPROVAL''"
    and "\<forall>ev \<in> set evs. \<not> is_resolve ev"
  shows "\<exists>ds'. st_devices (state_doc (run_events d evs)) name = Some ds'
    \<and> count ds' = count ds \<and> approval_status ds' = ''PENDING_APPROVAL''"
  using assms
proof (induction evs arbitrary: d ds)
  case Nil
  then show ?case by simp
next
  case (Cons ev evs)
  from Cons.prems(3) obtain cfg e where ev: "ev = Scan cfg e"
    by (cases ev) auto
  from step_scan_frozen [OF Cons.prems(1,2), of cfg e] obtain d1 where
    d1: "st_devices (state_doc (step d ev)) name = Some d1" "count d1 = count ds"
    "approval_status d1 = ''PENDING_APPROVAL''"
    unfolding ev by blast
  from Cons.prems(3) have "\<forall>ev \<in> set evs. \<not> is_resolve ev" by simp
  from Cons.IH [OF d1(1,3) this] d1(2) show ?case by simp
qed

theorem pending_count_frozen_witness:
  "\<exists>ds'. st_devices (state_doc (run_events demo_requested
       [Scan demo_config (demo_env ((25, ''d'') # demo_files) 30),
        Scan demo_config (demo_env ((35, ''e'') # (25, ''d'') # demo_files) 40)]))
       ''dev1'' = Some ds'
     \<and> count ds' = 3"
proof -
  have d: "st_devices (state_doc demo_requested) ''dev1'' = Some demo_pending_device"
    by (simp add: demo_requested_def)
  have p: "approval_status demo_pending_device = ''PENDING_APPROVAL''"
    by (simp add: demo_pending_device_def)
  have n: "\<forall>ev \<in> set [Scan demo_config (demo_env ((25, ''d'') # demo_files) 30),
        Scan demo_config (demo_env ((35, ''e'') # (25, ''d'') # demo_files) 40)].
      \<not> is_resolve ev"
    by simp
  from pending_count_frozen [OF d p n]
  show ?thesis by (auto simp: demo_pending_device_def)
qed


section \<open>Incremental counting across cycles\<close>

text \<open>
  C2 (as stated). A file can be counted as new in two consecutive incremental cycles.
  The second scan starts at 20 and observes one file whose timestamp is 20 (or 21): it
  is new against the cutoff 15 and the count becomes 1. The third scan uses the cutoff
  20 recorded by the second, finds the same single file at or after the cutoff, and the
  count becomes 2.
\<close>

theorem counted_twice_counterexample:
  "count_of (run_events initial_disk
     [Scan demo_config (demo_env [] 15),
      Scan demo_config (demo_env [(20, ''x'')] 20)]) ''dev1'' = 1
   \<and> count_of (run_events initial_disk
     [Scan demo_config (demo_env [] 15),
      Scan demo_config (demo_env [(20, ''x'')] 20),
      Scan demo_config (demo_env [(20, ''x'')] 30)]) ''dev1'' = 2
   \<and> count_of (run_events initial_disk
     [Scan demo_config (demo_env [] 15),
      Scan demo_config (demo_env [(21, ''y'')] 20),
      Scan demo_config (demo_env [(21, ''y'')] 30)]) ''dev1'' = 2"
  by (simp add: count_of_def demo_eval)

lemma demo_empty_scan:
  "step initial_disk (Scan demo_config (demo_env [] 15)) = demo_scanned"
  by (simp add: demo_eval demo_scanned_def)

lemma demo_empty_scan_saves:
  "saves_state (init demo_config initial_disk) (demo_env [] 15)"
  by (simp add: saves_state_def demo_eval)

lemma sorted_drop_filter_less:
  fixes ts :: "(instant \<times> string) list"
  assumes "sorted (map fst ts)"
    and "p \<in> set (drop (length (filter (\<lambda>(t, n). t < s) ts)) ts)"
  shows "s \<le> fst p"
proof (rule ccontr)
  assume "\<not> s \<le> fst p"
  then have lt: "fst p < s" by simp
  define P where "P = (\<lambda>q :: instant \<times> string. fst q < s)"
  have P: "(\<lambda>(t, n). t < s) = P" by (auto simp: P_def)
  define k where "k = length (filter P ts)"
  from assms(2) obtain j where j0: "j < length ts - k" and pj: "p = ts ! (k + j)"
    unfolding P k_def [symmetric] by (auto simp: in_set_conv_nth)
  from j0 have j: "k + j < length ts" by simp
  define m where "m = Suc (k + j)"
  have m: "m \<le> length ts" "k < m" using j by (simp_all add: m_def)
  have all: "\<forall>q \<in> set (take m ts). P q"
  proof
    fix q assume "q \<in> set (take m ts)"
    then obtain i where i: "i < m" "i < length ts" "q = ts ! i"
      by (auto simp: in_set_conv_nth)
    have "map fst ts ! i \<le> map fst ts ! (k + j)"
      using assms(1) i j by (intro sorted_nth_mono) (simp_all add: m_def)
    with i j lt pj show "P q" by (simp add: P_def)
  qed
  then have "filter P (take m ts) = take m ts" by (rule filter_True)
  then have full: "length (filter P (take m ts)) = m" using m by simp
  have "length (filter P (take m ts @ drop m ts))
      = length (filter P (take m ts)) + length (filter P (drop m ts))"
    by (simp only: filter_append length_append)
  then have "k = m + length (filter P (drop m ts))"
    by (simp only: append_take_drop_id full k_def)
  with m show False by simp
qed

lemma scan_device_incremental:
  assumes bc: "bootstrap_completed (state c)" and ls: "last_scan (state c) = Some t"
    and r: "scan_device_optimized c e name dc = Inr fc"
  shows "0 \<le> new_files fc"
    and "new_files fc
      \<le> int (length (filter (\<lambda>(x, n). timestamp e t \<le> x) (observed e name)))"
    and "new_files fc = int (length (new_entries (bulk_collect_file_timestamps e name) fc))"
    and "\<forall>p \<in> set (new_entries (bulk_collect_file_timestamps e name) fc).
          timestamp e t \<le> fst p"
proof -
  let ?s = "timestamp e t"
  let ?ts = "bulk_collect_file_timestamps e name"
  consider (zero) "fc = no_files"
    | (hist) "fc = all_historical ?ts"
    | (search) "fc = binary_search_file_count ?ts ?s"
    using r bc ls
    by (auto simp: scan_device_optimized_def Let_def split: if_splits option.splits)
  then have "0 \<le> new_files fc
    \<and> new_files fc \<le> int (length (filter (\<lambda>(x, n). ?s \<le> x) (observed e name)))
    \<and> new_files fc = int (length (new_entries ?ts fc))
    \<and> (\<forall>p \<in> set (new_entries ?ts fc). ?s \<le> fst p)"
  proof cases
    case zero
    then show ?thesis by (simp add: no_files_def new_entries_def)
  next
    case hist
    then show ?thesis by (simp add: all_historical_def new_entries_def)
  next
    case search
    let ?es = "observed e name"
    have fc: "fc = \<lparr>total_files = int (length ?es),
        historical_files = int (length (filter (\<lambda>(x, n). x < ?s) ?es)),
        new_files = int (length (filter (\<lambda>(x, n). ?s \<le> x) ?es))\<rparr>"
      unfolding search by (rule binary_search_file_count_collected)
    have idx: "length (filter (\<lambda>(x, n). x < ?s) ?es) = length (filter (\<lambda>(x, n). x < ?s) ?ts)"
      by (simp add: bulk_collect_observed length_filter_sort_key)
    have ne: "new_entries ?ts fc = drop (length (filter (\<lambda>(x, n). x < ?s) ?ts)) ?ts"
      by (simp add: new_entries_def fc idx length_bulk_collect)
    have len: "int (length (new_entries ?ts fc)) = new_files fc"
      unfolding ne using length_filter_complement [of ?es ?s]
      by (simp add: fc idx [symmetric] of_nat_diff length_bulk_collect)
    have "\<forall>p \<in> set (new_entries ?ts fc). ?s \<le> fst p"
      unfolding ne using sorted_drop_filter_less [OF sorted_bulk_collect] by blast
    with len show ?thesis by (simp add: fc)
  qed
  then show "0 \<le> new_files fc"
    and "new_files fc \<le> int (length (filter (\<lambda>(x, n). ?s \<le> x) (observed e name)))"
    and "new_files fc = int (length (new_entries ?ts fc))"
    and "\<forall>p \<in> set (new_entries ?ts fc). ?s \<le> fst p"
    by blast+
qed


lemma update_device_state_count:
  assumes u: "update_device_state c e n fc = Inr (v, c')"
  shows "n \<noteq> name \<Longrightarrow> count_in c' name = count_in c name"
    and "count_in c' n = count_in c n \<or> count_in c' n = count_in c n + new_files fc"
proof -
  from u have f: "c' = final (update_device_state c e n fc)" by simp
  show "count_in c' name = count_in c name" if "n \<noteq> name"
    using update_device_state_frame(7) [of name n c e fc] that
    by (simp add: count_in_def f)
  from u show "count_in c' n = count_in c n \<or> count_in c' n = count_in c n + new_files fc"
  proof (cases rule: update_device_state_cases)
    case (frozen ds)
    then show ?thesis by (simp add: count_in_def)
  next
    case (counted ds0)
    then show ?thesis
      by (auto simp: count_in_def split: option.splits dest: initialize_device_state_fresh)
  next
    case (requested ds0 req t)
    then show ?thesis
      by (auto simp: count_in_def split: option.splits dest: initialize_device_state_fresh)
  qed
qed

lemma scan_devices_loop_count:
  assumes "scan_devices_loop c e names acc = Inr (res, c')"
    and "bootstrap_completed (state c)" "last_scan (state c) = Some t"
    and "distinct names"
  shows "count_in c name \<le> count_in c' name
    \<and> count_in c' name \<le> count_in c name
        + (if name \<in> set names
           then int (length (filter (\<lambda>(x, n). timestamp e t \<le> x) (observed e name)))
           else 0)"
  using assms
proof (induction names arbitrary: c acc)
  case Nil
  then show ?case by simp
next
  case (Cons n names)
  from Cons.prems(1) obtain dc fc u c1 where
    fc: "scan_device_optimized c e n dc = Inr fc"
    and c1: "update_device_state c e n fc = Inr (u, c1)"
    and rest: "scan_devices_loop c1 e names (acc @ [(n, fc)]) = Inr (res, c')"
    by (rule scan_devices_loop_Cons_Inr)
  from c1 have f: "c1 = final (update_device_state c e n fc)" by simp
  have pre: "bootstrap_completed (state c1)" "last_scan (state c1) = Some t"
    using Cons.prems(2,3) by (simp_all add: f update_device_state_frame)
  from Cons.prems(4) have dn: "distinct names" by simp
  note ih = Cons.IH [OF rest pre dn]
  show ?case
  proof (cases "n = name")
    case False
    with update_device_state_count(1) [OF c1, of name] ih show ?thesis by simp
  next
    case True
    with Cons.prems(4) have notin: "name \<notin> set names" by simp
    from scan_device_incremental(1,2) [OF Cons.prems(2,3) fc] True
    have "0 \<le> new_files fc"
      "new_files fc
        \<le> int (length (filter (\<lambda>(x, n). timestamp e t \<le> x) (observed e name)))"
      by simp_all
    with update_device_state_count(2) [OF c1] True ih notin show ?thesis by auto
  qed
qed

lemma distinct_enabled_devices:
  "distinct (map fst (devices cfg)) \<Longrightarrow> distinct (enabled_devices cfg)"
  unfolding enabled_devices_def by (rule distinct_map_filter)

lemma step_scan_count:
  assumes bc: "bootstrap_completed (state_doc d)" and ls: "last_scan (state_doc d) = Some t"
    and dist: "distinct (map fst (devices cfg))"
  shows "count_of d name \<le> count_of (step d (Scan cfg e)) name
    \<and> count_of (step d (Scan cfg e)) name \<le> count_of d name
        + int (length (filter (\<lambda>(x, n). timestamp e t \<le> x) (observed e name)))"
proof (cases rule: run_scan_state_file [of "init cfg d" e])
  case kept
  then show ?thesis by (simp add: count_of_def disk_of_def)
next
  case (written res c1)
  from scan_devices_loop_count [OF written(1), of t name] bc ls
    distinct_enabled_devices [OF dist]
  have "count_in (init cfg d) name \<le> count_in c1 name
    \<and> count_in c1 name \<le> count_in (init cfg d) name
        + int (length (filter (\<lambda>(x, n). timestamp e t \<le> x) (observed e name)))"
    by (simp split: if_splits)
  then show ?thesis
    by (simp add: count_of_def count_in_def disk_of_def written(4))
qed

lemma step_saves_state:
  assumes "saves_state (init cfg d) e"
  shows "last_scan (state_doc (step d (Scan cfg e))) = Some (clock e Start_time)"
    and "bootstrap_completed (state_doc (step d (Scan cfg e)))"
    and "\<exists>res c1. scan_devices_loop (init cfg d) e (enabled_devices cfg) [] = Inr (res, c1)
          \<and> st_devices (state_doc (step d (Scan cfg e))) = st_devices (state c1)"
proof -
  from assms obtain res c1 where
    loop: "scan_devices_loop (init cfg d) e (enabled_devices cfg) [] = Inr (res, c1)"
    and ne: "enabled_devices cfg \<noteq> []" and ticks: "clock e Scan_end \<noteq> clock e Scan_start"
    by (auto simp: saves_state_iff)
  have "state_file (final (run_scan (init cfg d) e)) =
      (state c1)\<lparr>bootstrap_completed := True, last_scan := Some (clock e Start_time)\<rparr>"
  proof (cases rule: run_scan_cases [of "init cfg d" e])
    case (loop_raised err c2)
    with loop show ?thesis by simp
  next
    case (division res2 c2)
    with ticks show ?thesis by simp
  next
    case idle
    with ne show ?thesis by simp
  next
    case (saved res2 c2)
    with loop show ?thesis by simp
  qed
  then have st: "state_doc (step d (Scan cfg e)) =
      (state c1)\<lparr>bootstrap_completed := True, last_scan := Some (clock e Start_time)\<rparr>"
    by (simp add: disk_of_def)
  show "last_scan (state_doc (step d (Scan cfg e))) = Some (clock e Start_time)"
    and "bootstrap_completed (state_doc (step d (Scan cfg e)))"
    unfolding st by simp_all
  have "st_devices (state_doc (step d (Scan cfg e))) = st_devices (state c1)"
    unfolding st by simp
  with loop
  show "\<exists>res c1. scan_devices_loop (init cfg d) e (enabled_devices cfg) [] = Inr (res, c1)
          \<and> st_devices (state_doc (step d (Scan cfg e))) = st_devices (state c1)"
    by blast
qed

lemma step_nonscan:
  assumes "\<not> is_scan ev"
  shows "last_scan (state_doc (step d ev)) = last_scan (state_doc d)
    \<and> bootstrap_completed (state_doc (step d ev)) = bootstrap_completed (state_doc d)
    \<and> map_option ds_total_files (st_devices (state_doc (step d ev)) name)
        = map_option ds_total_files (st_devices (state_doc d) name)
    \<and> map_option ds_historical_files (st_devices (state_doc (step d ev)) name)
        = map_option ds_historical_files (st_devices (state_doc d) name)"
proof (cases ev)
  case (Scan cfg e)
  with assms show ?thesis by simp
next
  case (Resolve cfg t_tier t_decision aid decision who)
  show ?thesis
  proof (cases "process_approval_decision (init cfg d) t_tier t_decision aid decision who")
    case (Inl err)
    with Resolve show ?thesis by simp
  next
    case (Inr p)
    obtain ok c' where p: "p = (ok, c')" by (cases p)
    from Inr [unfolded p] show ?thesis
    proof (cases rule: process_approval_decision_cases)
      case unknown
      with Resolve Inr p show ?thesis by simp
    next
      case (resolved r ds)
      with Resolve Inr p show ?thesis by (auto simp: disk_of_def)
    qed
  qed
qed

lemma run_events_nonscan:
  assumes "\<forall>ev \<in> set evs. \<not> is_scan ev"
  shows "last_scan (state_doc (run_events d evs)) = last_scan (state_doc d)
    \<and> bootstrap_completed (state_doc (run_events d evs)) = bootstrap_completed (state_doc d)
    \<and> map_option ds_total_files (st_devices (state_doc (run_events d evs)) name)
        = map_option ds_total_files (st_devices (state_doc d) name)
    \<and> map_option ds_historical_files (st_devices (state_doc (run_events d evs)) name)
        = map_option ds_historical_files (st_devices (state_doc d) name)"
  using assms
proof (induction evs arbitrary: d)
  case Nil
  then show ?case by simp
next
  case (Cons ev evs)
  from Cons.prems have ns: "\<not> is_scan ev" "\<forall>ev \<in> set evs. \<not> is_scan ev" by simp_all
  from Cons.IH [OF ns(2), of "step d ev"] step_nonscan [OF ns(1), of d name]
  show ?case by simp
qed

text \<open>
  C2 (amended). Let a scan cycle record its start time as the last scan, let any
  resolutions follow, and let the next scan run on a configuration with distinct device
  names. Its cutoff is the instant it reads back from the recorded last scan: the local
  start time of the earlier cycle, converted by \<open>timestamp\<close> on the machine of the
  later one. The later scan classifies a file as new only if its timestamp is at or
  after that cutoff, and, whether it returns or raises, it raises a device's count on
  disk by at most the number of observed files at or after the cutoff. A file whose
  timestamp is strictly before the cutoff adds nothing to the count in the later cycle
  and cannot contribute in both.
\<close>

theorem incremental_new_after_last_scan:
  assumes A: "saves_state (init cfgA d0) eA"
    and mid: "\<forall>ev \<in> set evs. \<not> is_scan ev"
    and dB: "dB = run_events (step d0 (Scan cfgA eA)) evs"
    and dist: "distinct (map fst (devices cfgB))"
  shows "(\<forall>name dc fc. scan_device_optimized (init cfgB dB) eB name dc = Inr fc \<longrightarrow>
            new_files fc
              = int (length (new_entries (bulk_collect_file_timestamps eB name) fc))
            \<and> (\<forall>p \<in> set (new_entries (bulk_collect_file_timestamps eB name) fc).
                  timestamp eB (clock eA Start_time) \<le> fst p))
    \<and> (\<forall>name. count_of dB name \<le> count_of (step dB (Scan cfgB eB)) name
          \<and> count_of (step dB (Scan cfgB eB)) name \<le> count_of dB name
              + int (length (filter (\<lambda>(t, n). timestamp eB (clock eA Start_time) \<le> t)
                      (observed eB name))))"
proof -
  from step_saves_state(1,2) [OF A] run_events_nonscan [OF mid, of "step d0 (Scan cfgA eA)"]
  have bc: "bootstrap_completed (state_doc dB)"
    and ls: "last_scan (state_doc dB) = Some (clock eA Start_time)"
    unfolding dB by simp_all
  have one: "new_files fc
              = int (length (new_entries (bulk_collect_file_timestamps eB name) fc))
            \<and> (\<forall>p \<in> set (new_entries (bulk_collect_file_timestamps eB name) fc).
                  timestamp eB (clock eA Start_time) \<le> fst p)"
    if "scan_device_optimized (init cfgB dB) eB name dc = Inr fc" for name dc fc
    using scan_device_incremental(3,4) [OF _ _ that, of "clock eA Start_time"] bc ls
    by simp
  have two: "count_of dB name \<le> count_of (step dB (Scan cfgB eB)) name
          \<and> count_of (step dB (Scan cfgB eB)) name \<le> count_of dB name
              + int (length (filter (\<lambda>(t, n). timestamp eB (clock eA Start_time) \<le> t)
                      (observed eB name)))" for name
    using step_scan_count [OF bc ls dist] .
  from one two show ?thesis by blast
qed

theorem incremental_new_after_last_scan_witness:
  "count_of (step demo_scanned
       (Scan demo_config (demo_env [(10, ''old''), (20, ''x'')] 20))) ''dev1'' \<le> 1"
proof -
  have mid: "\<forall>ev \<in> set []. \<not> is_scan ev" by simp
  have dB: "demo_scanned = run_events (step initial_disk
      (Scan demo_config (demo_env [] 15))) []"
    by (simp only: demo_empty_scan run_events.simps)
  have dist: "distinct (map fst (devices demo_config))"
    by (simp add: demo_config_def)
  have c: "count_of demo_scanned ''dev1'' = 0"
    by (simp add: count_of_def demo_scanned_def)
  have n: "int (length (filter
      (\<lambda>(t, n). timestamp (demo_env [(10, ''old''), (20, ''x'')] 20)
                   (clock (demo_env [] 15) Start_time) \<le> t)
      (observed (demo_env [(10, ''old''), (20, ''x'')] 20) ''dev1''))) = 1"
    by (simp add: observed_def demo_env_def)
  note t = incremental_new_after_last_scan [OF demo_empty_scan_saves mid dB dist,
      of "demo_env [(10, ''old''), (20, ''x'')] 20"]
  from t [THEN conjunct2, rule_format, of "''dev1''", THEN conjunct2]
  show ?thesis unfolding c n by simp
qed


section \<open>Recorded totals from one scan to the next\<close>
















end
